theory Spec2Isabelle
  imports Main
begin

section \<open>Byte buffers and the join of sources\<close>

text \<open>
  A Go \<open>[]byte\<close> is a list of bytes; \<open>char\<close> is the 8-bit byte of HOL, so a buffer is a
  \<open>string\<close>. A path is a Go string.
\<close>

type_synonym bytes = string
type_synonym path = string

text \<open>The two bytes \<open>'\n', '\n'\<close> appended between sources (main.go 105 and 393).\<close>

definition sep :: bytes where
  "sep = [CHR 0x0A, CHR 0x0A]"

text \<open>
  One pass of the body shared by both loops (main.go 104-107 and 392-395):
  \<^verbatim>\<open>if len(combined) > 0 { combined = append(combined, '\n', '\n') }\<close>
  \<^verbatim>\<open>combined = append(combined, data...)\<close>
\<close>

definition append_source :: "bytes \<Rightarrow> bytes \<Rightarrow> bytes" where
  "append_source combined data =
     (if length combined > 0 then (combined @ sep) @ data else combined @ data)"

text \<open>The loop over sources that were all read, started from \<open>var combined []byte\<close>.\<close>

fun combine_from :: "bytes \<Rightarrow> bytes list \<Rightarrow> bytes" where
  "combine_from combined [] = combined"
| "combine_from combined (data # rest) = combine_from (append_source combined data) rest"

definition combine :: "bytes list \<Rightarrow> bytes" where
  "combine srcs = combine_from [] srcs"

text \<open>
  The startup loop of \<open>run\<close> (main.go 98-108): a source that cannot be read ends the loop
  with the error \<open>reading <arg>\<close>.
\<close>

datatype error = ReadingStdin | Reading path | StartingServer

fun read_args :: "(path \<Rightarrow> bytes option) \<Rightarrow> bytes \<Rightarrow> path list \<Rightarrow> error + bytes" where
  "read_args rd combined [] = Inr combined"
| "read_args rd combined (arg # rest) =
     (case rd arg of
        None \<Rightarrow> Inl (Reading arg)
      | Some data \<Rightarrow> read_args rd (append_source combined data) rest)"

text \<open>
  The re-read loop of \<open>watchFiles\<close> (main.go 386-396): a source that cannot be read is
  skipped with \<open>continue\<close>.
\<close>

fun reread_from :: "(path \<Rightarrow> bytes option) \<Rightarrow> bytes \<Rightarrow> path list \<Rightarrow> bytes" where
  "reread_from rd combined [] = combined"
| "reread_from rd combined (p # rest) =
     (case rd p of
        None \<Rightarrow> reread_from rd combined rest
      | Some data \<Rightarrow> reread_from rd (append_source combined data) rest)"

definition reread :: "(path \<Rightarrow> bytes option) \<Rightarrow> path list \<Rightarrow> bytes" where
  "reread rd paths = reread_from rd [] paths"

text \<open>
  The join as the specification words it: the separator stands between consecutive
  non-empty sources only, so empty sources take no part in it.
\<close>

fun intercalate :: "bytes \<Rightarrow> bytes list \<Rightarrow> bytes" where
  "intercalate s [] = []"
| "intercalate s [x] = x"
| "intercalate s (x # y # rest) = x @ s @ intercalate s (y # rest)"

definition spec_join :: "bytes list \<Rightarrow> bytes" where
  "spec_join srcs = intercalate sep (filter (\<lambda>d. d \<noteq> []) srcs)"

section \<open>Viewer broadcaster\<close>

text \<open>
  A viewer channel is made by \<open>make(chan struct{}, 1)\<close> (main.go 314). Channels are
  named by numbers; the store \<open>chanbuf\<close> gives for every channel the number of signals
  waiting in its buffer. The registry \<open>clients\<close> (main.go 38) is a Go map used as a set:
  a list without repetition stands for it.
\<close>

type_synonym chan = nat

definition chan_cap :: nat where
  "chan_cap = 1"

text \<open>
  \<^verbatim>\<open>select { case ch <- struct{}{}: default: }\<close> (main.go 344-347): the send is taken
  when the buffer has room, otherwise the \<open>default\<close> branch drops the signal. The loop
  visits the registry in no fixed order; the result does not depend on it
  (\<open>notify_loop_apply\<close> below).
\<close>

definition try_send :: "(chan \<Rightarrow> nat) \<Rightarrow> chan \<Rightarrow> (chan \<Rightarrow> nat)" where
  "try_send buf ch = (if buf ch < chan_cap then buf(ch := Suc (buf ch)) else buf)"

fun notify_loop :: "chan list \<Rightarrow> (chan \<Rightarrow> nat) \<Rightarrow> (chan \<Rightarrow> nat)" where
  "notify_loop [] buf = buf"
| "notify_loop (ch # rest) buf = notify_loop rest (try_send buf ch)"

definition notifyClients :: "chan list \<Rightarrow> (chan \<Rightarrow> nat) \<Rightarrow> (chan \<Rightarrow> nat)" where
  "notifyClients cl buf = notify_loop cl buf"

section \<open>Change detector\<close>

text \<open>
  A modification time is a point on a line; \<open>After\<close> is the strict order. The map
  \<open>modTimes\<close> (main.go 352) is a list of pairs with one pair for each key.
\<close>

type_synonym mtime = int
type_synonym modtimes = "(path \<times> mtime) list"

fun mt_put :: "path \<Rightarrow> mtime \<Rightarrow> modtimes \<Rightarrow> modtimes" where
  "mt_put k v [] = [(k, v)]"
| "mt_put k v ((k', v') # rest) =
     (if k = k' then (k, v) # rest else (k', v') # mt_put k v rest)"

text \<open>The baseline loop (main.go 353-363): both failures \<open>continue\<close>.\<close>

fun watch_init :: "(path \<Rightarrow> path option) \<Rightarrow> (path \<Rightarrow> mtime option) \<Rightarrow> path list
    \<Rightarrow> modtimes \<Rightarrow> modtimes" where
  "watch_init absf st [] mt = mt"
| "watch_init absf st (p # rest) mt =
     (case absf p of
        None \<Rightarrow> watch_init absf st rest mt
      | Some a \<Rightarrow>
         (case st a of
            None \<Rightarrow> watch_init absf st rest mt
          | Some t \<Rightarrow> watch_init absf st rest (mt_put a t mt)))"

text \<open>
  The stat loop of one tick (main.go 373-383), over the entries the map holds when the
  tick starts; the loop writes only the key it is visiting. Go visits the keys in no
  fixed order; the result does not depend on it (\<open>poll_closed\<close> below).
\<close>

fun poll_loop :: "(path \<Rightarrow> mtime option) \<Rightarrow> modtimes \<Rightarrow> modtimes \<times> bool \<Rightarrow> modtimes \<times> bool" where
  "poll_loop st [] acc = acc"
| "poll_loop st ((absPath, lastMod) # rest) (mt, changed) =
     (case st absPath of
        None \<Rightarrow> poll_loop st rest (mt, changed)
      | Some info \<Rightarrow>
         (if info > lastMod then poll_loop st rest (mt_put absPath info mt, True)
          else poll_loop st rest (mt, changed)))"

definition poll :: "(path \<Rightarrow> mtime option) \<Rightarrow> modtimes \<Rightarrow> modtimes \<times> bool" where
  "poll st mt = poll_loop st mt (mt, False)"

section \<open>Lifecycle monitor\<close>

text \<open>
  The goroutine of main.go 160-192 is in its first loop (\<open>WaitConnect\<close>), in its second
  loop (\<open>WaitDisconnect\<close>), has closed \<open>disconnectCh\<close> (\<open>Fired\<close>), or has returned on
  \<open>ctx.Done()\<close> (\<open>Returned\<close>). One step is one pass of the loop it is in: it reads
  \<open>len(clients)\<close> and then the cancellation.
\<close>

datatype phase = WaitConnect | WaitDisconnect | Fired | Returned

fun monitor_step :: "phase \<Rightarrow> nat \<Rightarrow> bool \<Rightarrow> phase" where
  "monitor_step WaitConnect count done =
     (if count > 0 then WaitDisconnect else if done then Returned else WaitConnect)"
| "monitor_step WaitDisconnect count done =
     (if count = 0 then Fired else if done then Returned else WaitDisconnect)"
| "monitor_step Fired count done = Fired"
| "monitor_step Returned count done = Returned"

section \<open>The running session\<close>

record sys =
  content :: bytes
  filePath :: path
  watched :: "path list"
  watcher :: "modtimes option"
  clients :: "chan list"
  chanbuf :: "chan \<Rightarrow> nat"
  delivered :: "chan \<Rightarrow> nat"
  phase :: phase
  cancelled :: bool

text \<open>
  What can happen in a session: a viewer stream registers its channel (main.go 314-317),
  its deferred \<open>delete\<close> runs (319-323), a stream takes a signal from its channel and
  writes the reload event (331-333), the poller's ticker fires with the file system as it
  is then (372-401), the monitor wakes (163-174 or 178-190), the context is cancelled.
  \<open>watcher\<close> is \<open>None\<close> when \<open>watchFiles\<close> was not started, and \<open>modTimes\<close>
  otherwise. \<open>delivered\<close> counts the reload events written to each viewer. A run of
  the session is a list of events, in the order in which the goroutines took their
  turns; a tick or a monitor pass that the scheduler still lets happen after the
  cancellation is a run too.
\<close>

datatype event =
    Subscribe chan
  | Unsubscribe chan
  | Receive chan
  | PollTick "path \<Rightarrow> mtime option" "path \<Rightarrow> bytes option"
  | Sample
  | Cancel

fun step :: "sys \<Rightarrow> event \<Rightarrow> sys" where
  "step s (Subscribe ch) =
     s\<lparr>clients := List.insert ch (clients s), chanbuf := (chanbuf s)(ch := 0)\<rparr>"
| "step s (Unsubscribe ch) = s\<lparr>clients := removeAll ch (clients s)\<rparr>"
| "step s (Receive ch) =
     (if ch \<in> set (clients s) \<and> chanbuf s ch > 0
      then s\<lparr>chanbuf := (chanbuf s)(ch := chanbuf s ch - 1),
             delivered := (delivered s)(ch := Suc (delivered s ch))\<rparr>
      else s)"
| "step s (PollTick st rd) =
     (case watcher s of
        None \<Rightarrow> s
      | Some mt \<Rightarrow>
         (case poll st mt of
            (mt', changed) \<Rightarrow>
              (if changed
               then s\<lparr>watcher := Some mt',
                      content := reread rd (watched s),
                      chanbuf := notifyClients (clients s) (chanbuf s)\<rparr>
               else s\<lparr>watcher := Some mt'\<rparr>)))"
| "step s Sample = s\<lparr>phase := monitor_step (phase s) (length (clients s)) (cancelled s)\<rparr>"
| "step s Cancel = s\<lparr>cancelled := True\<rparr>"

definition exec :: "sys \<Rightarrow> event list \<Rightarrow> sys" where
  "exec s evs = foldl step s evs"

section \<open>Startup\<close>

record env =
  args :: "string list"
  stdin_char_device :: bool
  stdin_data :: "bytes option"
  read_file :: "path \<Rightarrow> bytes option"
  listen_port :: "nat option"
  abs_path :: "path \<Rightarrow> path option"
  stat_mtime :: "path \<Rightarrow> mtime option"

datatype effect =
    PrintUsage
  | PrintError error
  | PrintServing nat
  | ExitProc nat
  | Listen
  | Serve
  | OpenBrowser nat
  | GoWatchFiles "path list"
  | GoMonitor

datatype result = Exited nat | Failed error | Running sys

definition is_help :: "string \<Rightarrow> bool" where
  "is_help a = (a = ''-h'' \<or> a = ''--help'')"

text \<open>
  \<open>run\<close> from the listener on (main.go 115-192), with the snapshot and \<open>filePath\<close> that
  the first part stored.
\<close>

definition serve :: "env \<Rightarrow> bytes \<Rightarrow> path \<Rightarrow> effect list \<times> result" where
  "serve e data fp =
     (case listen_port e of
        None \<Rightarrow> ([], Failed StartingServer)
      | Some port \<Rightarrow>
          ([Listen, Serve, PrintServing port, OpenBrowser port]
             @ (if fp \<noteq> [] then [GoWatchFiles (args e)] else [])
             @ [GoMonitor],
           Running \<lparr>content = data, filePath = fp, watched = args e,
             watcher = (if fp \<noteq> []
                        then Some (watch_init (abs_path e) (stat_mtime e) (args e) [])
                        else None),
             clients = [], chanbuf = (\<lambda>ch. 0), delivered = (\<lambda>ch. 0),
             phase = WaitConnect, cancelled = False\<rparr>))"

definition run :: "env \<Rightarrow> effect list \<times> result" where
  "run e =
     (if list_ex is_help (args e) then ([PrintUsage, ExitProc 0], Exited 0)
      else if length (args e) = 0 then
        (if \<not> stdin_char_device e then
           (case stdin_data e of
              None \<Rightarrow> ([], Failed ReadingStdin)
            | Some data \<Rightarrow> serve e data [])
         else ([PrintUsage, ExitProc 1], Exited 1))
      else
        (case read_args (read_file e) [] (args e) of
           Inl err \<Rightarrow> ([], Failed err)
         | Inr combined \<Rightarrow> serve e combined (hd (args e))))"

text \<open>\<open>main\<close> (main.go 60-65), up to the point where \<open>run\<close> blocks or the process exits.\<close>

definition main :: "env \<Rightarrow> effect list" where
  "main e =
     (case run e of
        (effs, Failed err) \<Rightarrow> effs @ [PrintError err, ExitProc 1]
      | (effs, r) \<Rightarrow> effs)"

section \<open>The lifecycle rule as the specification words it\<close>

text \<open>
  The drain is confirmed when two sampling checks in a row find the registry empty and no
  subscribe came between them. \<open>z\<close> says that the last check found it empty and nothing
  subscribed since.
\<close>

fun spec_drain_confirmed :: "chan list \<Rightarrow> bool \<Rightarrow> event list \<Rightarrow> bool" where
  "spec_drain_confirmed cl z [] = False"
| "spec_drain_confirmed cl z (Subscribe ch # evs) =
     spec_drain_confirmed (List.insert ch cl) False evs"
| "spec_drain_confirmed cl z (Unsubscribe ch # evs) =
     spec_drain_confirmed (removeAll ch cl) z evs"
| "spec_drain_confirmed cl z (Sample # evs) =
     (if cl = [] then (z \<or> spec_drain_confirmed cl True evs)
      else spec_drain_confirmed cl False evs)"
| "spec_drain_confirmed cl z (ev # evs) = spec_drain_confirmed cl z evs"

section \<open>Notions used in the statements\<close>

fun is_subscribe :: "event \<Rightarrow> bool" where
  "is_subscribe (Subscribe ch) = True"
| "is_subscribe ev = False"

text \<open>No buffer holds more than its capacity.\<close>

definition buf_ok :: "sys \<Rightarrow> bool" where
  "buf_ok s = (\<forall>ch. chanbuf s ch \<le> chan_cap)"

text \<open>
  What one tick does to one entry of \<open>modTimes\<close> (main.go 375-382), and whether it sets
  \<open>changed\<close> there.
\<close>

definition advance :: "(path \<Rightarrow> mtime option) \<Rightarrow> path \<times> mtime \<Rightarrow> path \<times> mtime" where
  "advance st e =
     (case st (fst e) of
        None \<Rightarrow> e
      | Some t \<Rightarrow> if snd e < t then (fst e, t) else e)"

definition advanced :: "(path \<Rightarrow> mtime option) \<Rightarrow> path \<times> mtime \<Rightarrow> bool" where
  "advanced st e = (case st (fst e) of None \<Rightarrow> False | Some t \<Rightarrow> snd e < t)"


section \<open>Properties of the join\<close>

lemma intercalate_Cons: "intercalate s (x # rest) = x @ concat (map (\<lambda>d. s @ d) rest)"
  by (induction rest arbitrary: x) simp_all

lemma combine_from_nonempty:
  "acc \<noteq> [] \<Longrightarrow> combine_from acc srcs = acc @ concat (map (\<lambda>d. sep @ d) srcs)"
  by (induction srcs arbitrary: acc) (simp_all add: append_source_def)

lemma combine_from_empty:
  "combine_from [] srcs = intercalate sep (dropWhile (\<lambda>d. d = []) srcs)"
proof (induction srcs)
  case Nil
  show ?case by simp
next
  case (Cons d rest)
  show ?case
  proof (cases "d = []")
    case True
    with Cons show ?thesis by (simp add: append_source_def)
  next
    case False
    then show ?thesis
      by (simp add: append_source_def combine_from_nonempty intercalate_Cons)
  qed
qed

lemma dropWhile_all_nonempty:
  "\<forall>d \<in> set srcs. d \<noteq> [] \<Longrightarrow> dropWhile (\<lambda>d. d = []) srcs = srcs"
  by (cases srcs) simp_all

lemma filter_all_nonempty:
  "\<forall>d \<in> set srcs. d \<noteq> [] \<Longrightarrow> filter (\<lambda>d. d \<noteq> []) srcs = srcs"
  by (induction srcs) simp_all

lemma reread_from_eq: "reread_from rd acc ps = combine_from acc (List.map_filter rd ps)"
  by (induction ps arbitrary: acc) (simp_all add: List.map_filter_simps split: option.splits)


lemma read_args_find:
  "read_args rd acc as =
     (case find (\<lambda>a. rd a = None) as of
        Some b \<Rightarrow> Inl (Reading b)
      | None \<Rightarrow> Inr (combine_from acc (map (the \<circ> rd) as)))"
  by (induction as arbitrary: acc) (auto split: option.splits)

lemma find_unreadable:
  "a \<in> set as \<Longrightarrow> rd a = None
   \<Longrightarrow> \<exists>b \<in> set as. rd b = None \<and> find (\<lambda>a. rd a = None) as = Some b"
  by (induction as) auto

lemma read_args_all_read:
  "\<forall>a \<in> set as. rd a \<noteq> None
   \<Longrightarrow> read_args rd acc as = Inr (combine_from acc (map (the \<circ> rd) as))"
proof -
  assume "\<forall>a \<in> set as. rd a \<noteq> None"
  then have "find (\<lambda>a. rd a = None) as = None"
    by (simp add: find_None_iff)
  then show ?thesis by (simp add: read_args_find)
qed

text \<open>
  C1, as the code has it. The loop puts the separator in front of every source that is
  appended to a buffer that is not empty. So the snapshot is the list of sources without
  its leading empty sources, joined by \<open>sep\<close>: it never starts with a separator; when
  every source is non-empty it is the join of the specification, with one separator
  between neighbours and none at the end; and the sources \<open># A\<close> and \<open># B\<close> give
  \<open># A\n\n# B\<close>. An empty source that follows a non-empty one does get its separator.
  Both loops build the snapshot so: at startup from all the sources, when they can all
  be read, and at a detected change from the sources that can be read then.
\<close>

theorem combine_join:
  "combine srcs = intercalate sep (dropWhile (\<lambda>d. d = []) srcs)
   \<and> ((\<forall>d \<in> set srcs. d \<noteq> []) \<longrightarrow> combine srcs = spec_join srcs)
   \<and> combine [''# A'', ''# B''] = ''# A'' @ sep @ ''# B''
   \<and> ((\<forall>a \<in> set as. rd a \<noteq> None)
        \<longrightarrow> read_args rd [] as = Inr (combine (map (the \<circ> rd) as)))
   \<and> reread rd paths = combine (List.map_filter rd paths)"
proof (intro conjI impI)
  show "combine srcs = intercalate sep (dropWhile (\<lambda>d. d = []) srcs)"
    by (simp add: combine_def combine_from_empty)
  show "combine srcs = spec_join srcs" if "\<forall>d \<in> set srcs. d \<noteq> []"
    using that
    by (simp add: combine_def combine_from_empty spec_join_def
        dropWhile_all_nonempty filter_all_nonempty)
  show "combine [''# A'', ''# B''] = ''# A'' @ sep @ ''# B''"
    by (simp add: combine_def append_source_def)
  show "read_args rd [] as = Inr (combine (map (the \<circ> rd) as))"
    if "\<forall>a \<in> set as. rd a \<noteq> None"
    using that by (simp add: read_args_all_read combine_def)
  show "reread rd paths = combine (List.map_filter rd paths)"
    by (simp add: reread_def combine_def reread_from_eq)
qed

theorem combine_join_witness:
  "combine [''x'', ''yz''] = spec_join [''x'', ''yz'']
    \<and> combine [''x'', ''yz''] = ''x'' @ sep @ ''yz''
    \<and> read_args Some [] [''x'', ''yz''] = Inr (''x'' @ sep @ ''yz'')"
  using combine_join [of "[''x'', ''yz'']" "[''x'', ''yz'']" Some "[]"]
  by (simp add: sep_def spec_join_def)

text \<open>
  C1 as stated fails where a source is empty: between \<open>a\<close> and \<open>b\<close> with an empty
  source in the middle the code writes the separator twice, and an empty last source
  leaves a separator at the end.
\<close>

theorem combine_empty_source_counterexample:
  "combine [''a'', [], ''b''] = ''a'' @ sep @ sep @ ''b''
   \<and> combine [''a'', [], ''b''] \<noteq> spec_join [''a'', [], ''b'']
   \<and> combine [''a'', []] = ''a'' @ sep"
  by (simp add: combine_def append_source_def spec_join_def sep_def)

section \<open>Properties of executions\<close>

lemma notify_loop_apply:
  "notify_loop cl buf ch = (if ch \<in> set cl \<and> buf ch = 0 then 1 else buf ch)"
  by (induction cl arbitrary: buf) (auto simp: try_send_def chan_cap_def)

lemma exec_Nil: "exec s [] = s"
  by (simp add: exec_def)

lemma exec_Cons: "exec s (ev # evs) = exec (step s ev) evs"
  by (simp add: exec_def)

lemma exec_append: "exec s (evs @ evs') = exec (exec s evs) evs'"
  by (simp add: exec_def)

lemma exec_snoc: "exec s (evs @ [ev]) = step (exec s evs) ev"
  by (simp add: exec_def)

text \<open>The session that \<open>run\<close> starts.\<close>

lemma run_initial:
  assumes "run e = (effs, Running s)"
  shows "clients s = []" and "phase s = WaitConnect" and "\<not> cancelled s"
    and "chanbuf s = (\<lambda>ch. 0)" and "delivered s = (\<lambda>ch. 0)" and "watched s = args e"
    and "watcher s = (if filePath s \<noteq> []
           then Some (watch_init (abs_path e) (stat_mtime e) (args e) []) else None)"
proof -
  from assms obtain data fp where "serve e data fp = (effs, Running s)"
    by (auto simp: run_def split: if_splits option.splits sum.splits)
  then have "s = \<lparr>content = data, filePath = fp, watched = args e,
             watcher = (if fp \<noteq> []
                        then Some (watch_init (abs_path e) (stat_mtime e) (args e) [])
                        else None),
             clients = [], chanbuf = (\<lambda>ch. 0), delivered = (\<lambda>ch. 0),
             phase = WaitConnect, cancelled = False\<rparr>"
    by (auto simp: serve_def split: option.splits)
  then show "clients s = []" and "phase s = WaitConnect" and "\<not> cancelled s"
    and "chanbuf s = (\<lambda>ch. 0)" and "delivered s = (\<lambda>ch. 0)" and "watched s = args e"
    and "watcher s = (if filePath s \<noteq> []
           then Some (watch_init (abs_path e) (stat_mtime e) (args e) []) else None)"
    by simp_all
qed

section \<open>Properties of the broadcaster\<close>

lemma step_buf_ok: "buf_ok s \<Longrightarrow> buf_ok (step s ev)"
proof (cases ev)
  case (PollTick st rd)
  assume "buf_ok s"
  then show ?thesis using PollTick
    by (auto simp: buf_ok_def notifyClients_def notify_loop_apply chan_cap_def
        split: option.splits prod.splits)
qed (auto simp: buf_ok_def chan_cap_def le_diff_conv)

lemma exec_buf_ok: "buf_ok s \<Longrightarrow> buf_ok (exec s evs)"
  by (induction evs arbitrary: s) (simp_all add: exec_Nil exec_Cons step_buf_ok)

text \<open>
  C4. In a registry whose channels hold at most one signal each (every channel is made
  with one slot), one call of \<open>notifyClients\<close> leaves exactly one signal in every
  registered channel, so none is starved and a channel that already held one keeps one:
  the new signal is dropped. Channels outside the registry are not touched. In every
  run of the session no buffer ever holds more than one signal, and a call at any
  moment of the run leaves one in every channel registered then. The buffers of the
  session that \<open>run\<close> starts are empty (\<open>run_initial\<close>). The call is a total function
  of the registry: each send falls through to \<open>default\<close> where it would block.
\<close>

theorem notify_every_channel_once:
  assumes "\<forall>ch. chanbuf s ch \<le> chan_cap"
  shows "(\<forall>ch \<in> set (clients s). notifyClients (clients s) (chanbuf s) ch = 1)
    \<and> (\<forall>ch. ch \<notin> set (clients s) \<longrightarrow> notifyClients (clients s) (chanbuf s) ch = chanbuf s ch)
    \<and> (\<forall>evs ch. chanbuf (exec s evs) ch \<le> 1)
    \<and> (\<forall>evs. \<forall>ch \<in> set (clients (exec s evs)).
          notifyClients (clients (exec s evs)) (chanbuf (exec s evs)) ch = 1)"
proof (intro conjI ballI allI impI)
  fix ch assume "ch \<in> set (clients s)"
  moreover from assms have "chanbuf s ch \<le> 1" by (simp add: chan_cap_def)
  ultimately show "notifyClients (clients s) (chanbuf s) ch = 1"
    by (simp add: notifyClients_def notify_loop_apply)
next
  fix ch assume "ch \<notin> set (clients s)"
  then show "notifyClients (clients s) (chanbuf s) ch = chanbuf s ch"
    by (simp add: notifyClients_def notify_loop_apply)
next
  fix evs ch
  from assms have "buf_ok s" by (simp add: buf_ok_def)
  then have "buf_ok (exec s evs)" by (rule exec_buf_ok)
  then show "chanbuf (exec s evs) ch \<le> 1" by (simp add: buf_ok_def chan_cap_def)
next
  fix evs ch assume "ch \<in> set (clients (exec s evs))"
  moreover from assms have "buf_ok s" by (simp add: buf_ok_def)
  then have "buf_ok (exec s evs)" by (rule exec_buf_ok)
  then have "chanbuf (exec s evs) ch \<le> 1" by (simp add: buf_ok_def chan_cap_def)
  ultimately show "notifyClients (clients (exec s evs)) (chanbuf (exec s evs)) ch = 1"
    by (simp add: notifyClients_def notify_loop_apply)
qed

theorem notify_every_channel_once_witness:
  "notifyClients [1, 2, 3] ((\<lambda>ch. 0)(2 := 1)) 1 = 1
   \<and> notifyClients [1, 2, 3] ((\<lambda>ch. 0)(2 := 1)) 2 = 1
   \<and> notifyClients [1, 2, 3] ((\<lambda>ch. 0)(2 := 1)) 3 = 1
   \<and> notifyClients [1, 2, 3] ((\<lambda>ch. 0)(2 := 1)) 4 = 0"
  using notify_every_channel_once [of "\<lparr>content = [], filePath = [], watched = [],
    watcher = None, clients = [1, 2, 3], chanbuf = (\<lambda>ch. 0)(2 := 1), delivered = (\<lambda>ch. 0),
    phase = WaitConnect, cancelled = False\<rparr>"]
  by (simp add: chan_cap_def)

section \<open>Properties of the lifecycle monitor\<close>

lemma step_idle:
  "\<not> is_subscribe ev \<Longrightarrow> clients s = [] \<Longrightarrow> phase s = WaitConnect \<or> phase s = Returned
   \<Longrightarrow> clients (step s ev) = [] \<and> (phase (step s ev) = WaitConnect \<or> phase (step s ev) = Returned)"
  by (cases ev) (auto split: option.splits prod.splits)

lemma exec_idle:
  "\<forall>ev \<in> set evs. \<not> is_subscribe ev \<Longrightarrow> clients s = []
   \<Longrightarrow> phase s = WaitConnect \<or> phase s = Returned
   \<Longrightarrow> clients (exec s evs) = [] \<and> (phase (exec s evs) = WaitConnect \<or> phase (exec s evs) = Returned)"
proof (induction evs arbitrary: s)
  case Nil
  then show ?case by (simp add: exec_Nil)
next
  case (Cons ev evs)
  from Cons.prems have "clients (step s ev) = [] \<and>
      (phase (step s ev) = WaitConnect \<or> phase (step s ev) = Returned)"
    by (intro step_idle) simp_all
  with Cons.prems Cons.IH [of "step s ev"] show ?case
    by (simp add: exec_Cons)
qed

text \<open>
  C3. A session that starts with an empty registry, with the monitor in its first loop
  (as every session that \<open>run\<close> starts does), and in which no viewer ever subscribes
  never closes \<open>disconnectCh\<close>, whatever else happens and however many times the
  monitor samples.
\<close>

theorem never_connected_never_drains:
  assumes "\<forall>ev \<in> set evs. \<not> is_subscribe ev"
  shows "(clients s = [] \<and> phase s = WaitConnect \<longrightarrow> phase (exec s evs) \<noteq> Fired)
     \<and> (run e = (effs, Running s) \<longrightarrow> phase (exec s evs) \<noteq> Fired)"
proof -
  have idle: "phase (exec s evs) \<noteq> Fired" if "clients s = []" and "phase s = WaitConnect"
    using exec_idle [OF assms that(1)] that(2) by auto
  moreover have "phase (exec s evs) \<noteq> Fired" if "run e = (effs, Running s)"
    using run_initial(1,2) [OF that] by (rule idle)
  ultimately show ?thesis by blast
qed

theorem never_connected_never_drains_witness:
  "phase (exec \<lparr>content = [], filePath = [], watched = [], watcher = None, clients = [],
      chanbuf = (\<lambda>ch. 0), delivered = (\<lambda>ch. 0), phase = WaitConnect, cancelled = False\<rparr>
    [Sample, Sample, Unsubscribe 1, Sample, Cancel, Sample]) \<noteq> Fired"
  using never_connected_never_drains [of "[Sample, Sample, Unsubscribe 1, Sample, Cancel, Sample]"
    "\<lparr>content = [], filePath = [], watched = [], watcher = None, clients = [],
      chanbuf = (\<lambda>ch. 0), delivered = (\<lambda>ch. 0), phase = WaitConnect, cancelled = False\<rparr>"
    "\<lparr>args = [], stdin_char_device = False, stdin_data = Some [], read_file = (\<lambda>p. None),
      listen_port = Some 8080, abs_path = Some, stat_mtime = (\<lambda>p. None)\<rparr>"
    "[Listen, Serve, PrintServing 8080, OpenBrowser 8080, GoMonitor]"]
  by (simp add: run_def serve_def is_help_def)

lemma step_phase_cases:
  "phase (step s ev) = phase s \<or> ev = Sample"
  by (cases ev) (auto split: option.splits prod.splits)

lemma step_Fired: "phase s = Fired \<Longrightarrow> phase (step s ev) = Fired"
  by (cases ev) (auto split: option.splits prod.splits)

lemma exec_Fired: "phase s = Fired \<Longrightarrow> phase (exec s evs) = Fired"
  by (induction evs arbitrary: s) (simp_all add: exec_Nil exec_Cons step_Fired)

lemma reach_WaitDisconnect:
  "phase s = WaitConnect \<Longrightarrow> phase (exec s evs) = WaitDisconnect
   \<Longrightarrow> \<exists>pre mid. evs = pre @ Sample # mid \<and> clients (exec s pre) \<noteq> []"
proof (induction evs rule: rev_induct)
  case Nil
  then show ?case by (simp add: exec_Nil)
next
  case (snoc ev evs)
  show ?case
  proof (cases "phase (exec s evs) = WaitDisconnect")
    case True
    with snoc obtain pre mid where "evs = pre @ Sample # mid" "clients (exec s pre) \<noteq> []"
      by blast
    then have "evs @ [ev] = pre @ Sample # (mid @ [ev])" by simp
    with \<open>clients (exec s pre) \<noteq> []\<close> show ?thesis by blast
  next
    case False
    with snoc.prems(2) have ev: "ev = Sample"
      using step_phase_cases [of "exec s evs" ev] by (auto simp: exec_snoc)
    from snoc.prems(2) False have "clients (exec s evs) \<noteq> []"
      by (cases "phase (exec s evs)") (auto simp: exec_snoc ev split: if_splits)
    with ev show ?thesis by blast
  qed
qed

lemma reach_Fired:
  "phase s = WaitConnect \<Longrightarrow> phase (exec s evs) = Fired
   \<Longrightarrow> \<exists>pre mid post. evs = pre @ Sample # mid @ Sample # post
        \<and> clients (exec s pre) \<noteq> [] \<and> clients (exec s (pre @ Sample # mid)) = []"
proof (induction evs rule: rev_induct)
  case Nil
  then show ?case by (simp add: exec_Nil)
next
  case (snoc ev evs)
  show ?case
  proof (cases "phase (exec s evs) = Fired")
    case True
    with snoc obtain pre mid post where d: "evs = pre @ Sample # mid @ Sample # post"
      "clients (exec s pre) \<noteq> []" "clients (exec s (pre @ Sample # mid)) = []"
      by blast
    then have "evs @ [ev] = pre @ Sample # mid @ Sample # (post @ [ev])" by simp
    with d(2,3) show ?thesis by blast
  next
    case False
    with snoc.prems(2) have ev: "ev = Sample"
      using step_phase_cases [of "exec s evs" ev] by (auto simp: exec_snoc)
    from snoc.prems(2) False have w: "phase (exec s evs) = WaitDisconnect"
      and z: "clients (exec s evs) = []"
      by (cases "phase (exec s evs)"; auto simp: exec_snoc ev split: if_splits)+
    from reach_WaitDisconnect [OF snoc.prems(1) w]
    obtain pre mid where d: "evs = pre @ Sample # mid" "clients (exec s pre) \<noteq> []"
      by blast
    have "evs @ [ev] = pre @ Sample # mid @ Sample # []" using d(1) ev by simp
    moreover have "clients (exec s (pre @ Sample # mid)) = []" using z d(1) by simp
    ultimately show ?thesis using d(2) by blast
  qed
qed

lemma step_not_WaitConnect: "phase s \<noteq> WaitConnect \<Longrightarrow> phase (step s ev) \<noteq> WaitConnect"
  by (cases ev; cases "phase s") (auto split: option.splits prod.splits)

lemma exec_not_WaitConnect: "phase s \<noteq> WaitConnect \<Longrightarrow> phase (exec s evs) \<noteq> WaitConnect"
  by (induction evs arbitrary: s) (simp_all add: exec_Nil exec_Cons step_not_WaitConnect)

lemma sample_seen: "clients s \<noteq> [] \<Longrightarrow> phase (step s Sample) \<noteq> WaitConnect"
  by (cases "phase s") simp_all

lemma sample_zero:
  "clients s = [] \<Longrightarrow> phase s \<noteq> WaitConnect \<Longrightarrow> phase s \<noteq> Returned
   \<Longrightarrow> phase (step s Sample) = Fired"
  by (cases "phase s") simp_all

lemma drain_if:
  assumes "clients (exec s pre) \<noteq> []"
    and "clients (exec s (pre @ Sample # mid)) = []"
    and "phase (exec s (pre @ Sample # mid)) \<noteq> Returned"
  shows "phase (exec s (pre @ Sample # mid @ Sample # post)) = Fired"
proof -
  have "phase (step (exec s pre) Sample) \<noteq> WaitConnect"
    using assms(1) by (rule sample_seen)
  then have "phase (exec (step (exec s pre) Sample) mid) \<noteq> WaitConnect"
    by (rule exec_not_WaitConnect)
  then have nw: "phase (exec s (pre @ Sample # mid)) \<noteq> WaitConnect"
    by (simp add: exec_append exec_Cons)
  have "phase (step (exec s (pre @ Sample # mid)) Sample) = Fired"
    using assms(2) nw assms(3) by (rule sample_zero)
  then have "phase (exec (step (exec s (pre @ Sample # mid)) Sample) post) = Fired"
    by (rule exec_Fired)
  moreover have "exec s (pre @ Sample # mid @ Sample # post)
      = exec (step (exec s (pre @ Sample # mid)) Sample) post"
    using exec_append [of s "pre @ Sample # mid" "Sample # post"] by (simp add: exec_Cons)
  ultimately show ?thesis by simp
qed

lemma step_cancelled: "cancelled s \<Longrightarrow> cancelled (step s ev)"
  by (cases ev) (auto split: option.splits prod.splits)

lemma step_not_Returned:
  "\<not> cancelled s \<Longrightarrow> phase s \<noteq> Returned \<Longrightarrow> phase (step s ev) \<noteq> Returned"
  by (cases ev; cases "phase s") (auto split: option.splits prod.splits)

lemma exec_not_Returned:
  "\<not> cancelled (exec s evs) \<Longrightarrow> phase s \<noteq> Returned \<Longrightarrow> phase (exec s evs) \<noteq> Returned"
proof (induction evs rule: rev_induct)
  case Nil
  then show ?case by (simp add: exec_Nil)
next
  case (snoc ev evs)
  from snoc.prems(1) have nc: "\<not> cancelled (exec s evs)"
    using step_cancelled [of "exec s evs" ev] by (auto simp: exec_snoc)
  with snoc have "phase (exec s evs) \<noteq> Returned" by simp
  with nc show ?case by (simp add: exec_snoc step_not_Returned)
qed

text \<open>
  C2, as the code has it. A sampling check that finds a viewer moves the monitor from
  its first loop to its second. Once the monitor is in its second loop, the first
  sampling check that finds the registry empty closes \<open>disconnectCh\<close>, and nothing that
  happens afterwards, a subscribe included, undoes it: there is no second, confirming
  check. So in every run in which one sampling check finds the registry non-empty and a
  later one finds it empty, \<open>disconnectCh\<close> is closed, unless the monitor has returned
  on cancellation before that later check (it has not while the context is not
  cancelled); and a session that \<open>run\<close> starts has closed \<open>disconnectCh\<close> only if
  there were two such checks. A check that finds a viewer in the second loop, or no
  viewer in the first, keeps the monitor where it is, or ends it when the context is
  cancelled.
\<close>

theorem drain_fires_on_first_zero_sample:
  "(phase s = WaitDisconnect \<and> clients s = [] \<longrightarrow> phase (exec s (Sample # evs)) = Fired)
   \<and> (phase s = WaitConnect \<and> phase (exec s evs) = Fired \<longrightarrow>
        (\<exists>pre mid post. evs = pre @ Sample # mid @ Sample # post
           \<and> clients (exec s pre) \<noteq> [] \<and> clients (exec s (pre @ Sample # mid)) = []))
   \<and> (phase s = WaitDisconnect \<and> clients s \<noteq> [] \<and> \<not> cancelled s
        \<longrightarrow> phase (step s Sample) = WaitDisconnect)
   \<and> (phase s = WaitConnect \<and> clients s \<noteq> [] \<longrightarrow> phase (step s Sample) = WaitDisconnect)
   \<and> (phase s = WaitConnect \<and> clients s = []
        \<longrightarrow> phase (step s Sample) = (if cancelled s then Returned else WaitConnect))
   \<and> (phase s = WaitDisconnect \<and> clients s \<noteq> []
        \<longrightarrow> phase (step s Sample) = (if cancelled s then Returned else WaitDisconnect))
   \<and> (clients (exec s pre) \<noteq> [] \<and> clients (exec s (pre @ Sample # mid)) = []
        \<and> phase (exec s (pre @ Sample # mid)) \<noteq> Returned
        \<longrightarrow> phase (exec s (pre @ Sample # mid @ Sample # post)) = Fired)
   \<and> (run e = (effs, Running s) \<and> \<not> cancelled (exec s evs)
        \<longrightarrow> phase (exec s evs) \<noteq> Returned)
   \<and> (run e = (effs, Running s) \<and> phase (exec s evs) = Fired \<longrightarrow>
        (\<exists>pre mid post. evs = pre @ Sample # mid @ Sample # post
           \<and> clients (exec s pre) \<noteq> [] \<and> clients (exec s (pre @ Sample # mid)) = []))"
proof -
  have c1: "phase s = WaitDisconnect \<and> clients s = [] \<longrightarrow> phase (exec s (Sample # evs)) = Fired"
  proof
    assume "phase s = WaitDisconnect \<and> clients s = []"
    then have "phase (step s Sample) = Fired" by simp
    then show "phase (exec s (Sample # evs)) = Fired"
      by (simp only: exec_Cons exec_Fired)
  qed
  have c2: "phase s = WaitConnect \<and> phase (exec s evs) = Fired \<longrightarrow>
        (\<exists>pre mid post. evs = pre @ Sample # mid @ Sample # post
           \<and> clients (exec s pre) \<noteq> [] \<and> clients (exec s (pre @ Sample # mid)) = [])"
    using reach_Fired by blast
  have c3: "phase s = WaitDisconnect \<and> clients s \<noteq> [] \<and> \<not> cancelled s
        \<longrightarrow> phase (step s Sample) = WaitDisconnect"
    by simp
  have c4: "phase s = WaitConnect \<and> clients s \<noteq> [] \<longrightarrow> phase (step s Sample) = WaitDisconnect"
    by simp
  have c5: "phase s = WaitConnect \<and> clients s = []
        \<longrightarrow> phase (step s Sample) = (if cancelled s then Returned else WaitConnect)"
    by simp
  have c6: "phase s = WaitDisconnect \<and> clients s \<noteq> []
        \<longrightarrow> phase (step s Sample) = (if cancelled s then Returned else WaitDisconnect)"
    by simp
  have c7: "clients (exec s pre) \<noteq> [] \<and> clients (exec s (pre @ Sample # mid)) = []
        \<and> phase (exec s (pre @ Sample # mid)) \<noteq> Returned
        \<longrightarrow> phase (exec s (pre @ Sample # mid @ Sample # post)) = Fired"
    using drain_if [of s pre mid post] by blast
  have c8: "run e = (effs, Running s) \<and> \<not> cancelled (exec s evs)
        \<longrightarrow> phase (exec s evs) \<noteq> Returned"
  proof
    assume h: "run e = (effs, Running s) \<and> \<not> cancelled (exec s evs)"
    then have "phase s = WaitConnect" by (blast dest: run_initial(2))
    then have "phase s \<noteq> Returned" by simp
    moreover from h have "\<not> cancelled (exec s evs)" by simp
    ultimately show "phase (exec s evs) \<noteq> Returned"
      using exec_not_Returned [of s evs] by simp
  qed
  have c9: "run e = (effs, Running s) \<and> phase (exec s evs) = Fired \<longrightarrow>
        (\<exists>pre mid post. evs = pre @ Sample # mid @ Sample # post
           \<and> clients (exec s pre) \<noteq> [] \<and> clients (exec s (pre @ Sample # mid)) = [])"
  proof
    assume h: "run e = (effs, Running s) \<and> phase (exec s evs) = Fired"
    then have "phase s = WaitConnect" by (blast dest: run_initial(2))
    with h c2 show "\<exists>pre mid post. evs = pre @ Sample # mid @ Sample # post
           \<and> clients (exec s pre) \<noteq> [] \<and> clients (exec s (pre @ Sample # mid)) = []"
      by blast
  qed
  show ?thesis
    by (intro conjI) (fact c1 c2 c3 c4 c5 c6 c7 c8 c9)+
qed

theorem drain_fires_on_first_zero_sample_witness:
  "phase (exec \<lparr>content = [], filePath = [], watched = [], watcher = None,
      clients = [], chanbuf = (\<lambda>ch. 0), delivered = (\<lambda>ch. 0), phase = WaitDisconnect,
      cancelled = False\<rparr>
    [Sample, Subscribe 2, Sample]) = Fired
   \<and> (\<exists>pre mid post. [Subscribe 1, Sample, Unsubscribe 1, Sample] = pre @ Sample # mid @ Sample # post
        \<and> clients (exec \<lparr>content = [], filePath = [], watched = [], watcher = None,
      clients = [], chanbuf = (\<lambda>ch. 0), delivered = (\<lambda>ch. 0), phase = WaitConnect,
      cancelled = False\<rparr> pre) \<noteq> []
        \<and> clients (exec \<lparr>content = [], filePath = [], watched = [], watcher = None,
      clients = [], chanbuf = (\<lambda>ch. 0), delivered = (\<lambda>ch. 0), phase = WaitConnect,
      cancelled = False\<rparr> (pre @ Sample # mid)) = [])
   \<and> phase (step \<lparr>content = [], filePath = [], watched = [], watcher = None,
      clients = [2], chanbuf = (\<lambda>ch. 0), delivered = (\<lambda>ch. 0), phase = WaitDisconnect,
      cancelled = False\<rparr>
      Sample) = WaitDisconnect
   \<and> phase (step \<lparr>content = [], filePath = [], watched = [], watcher = None,
      clients = [1], chanbuf = (\<lambda>ch. 0), delivered = (\<lambda>ch. 0), phase = WaitConnect,
      cancelled = False\<rparr>
      Sample) = WaitDisconnect
   \<and> phase (exec \<lparr>content = [], filePath = [], watched = [], watcher = None,
      clients = [], chanbuf = (\<lambda>ch. 0), delivered = (\<lambda>ch. 0), phase = WaitConnect,
      cancelled = False\<rparr>
      ([Subscribe 1] @ Sample # [Unsubscribe 1] @ Sample # [Subscribe 2, Sample])) = Fired"
proof (intro conjI)
  show "phase (exec \<lparr>content = [], filePath = [], watched = [], watcher = None,
      clients = [], chanbuf = (\<lambda>ch. 0), delivered = (\<lambda>ch. 0), phase = WaitDisconnect,
      cancelled = False\<rparr>
    [Sample, Subscribe 2, Sample]) = Fired"
    using drain_fires_on_first_zero_sample [of
      "\<lparr>content = [], filePath = [], watched = [], watcher = None,
      clients = [], chanbuf = (\<lambda>ch. 0), delivered = (\<lambda>ch. 0), phase = WaitDisconnect,
      cancelled = False\<rparr>"
      "[Subscribe 2, Sample]", THEN conjunct1]
    by simp
  have "phase (exec \<lparr>content = [], filePath = [], watched = [], watcher = None,
      clients = [], chanbuf = (\<lambda>ch. 0), delivered = (\<lambda>ch. 0), phase = WaitConnect,
      cancelled = False\<rparr> [Subscribe 1, Sample, Unsubscribe 1, Sample]) = Fired"
    by (simp add: exec_def)
  then show "\<exists>pre mid post. [Subscribe 1, Sample, Unsubscribe 1, Sample] = pre @ Sample # mid @ Sample # post
        \<and> clients (exec \<lparr>content = [], filePath = [], watched = [], watcher = None,
      clients = [], chanbuf = (\<lambda>ch. 0), delivered = (\<lambda>ch. 0), phase = WaitConnect,
      cancelled = False\<rparr> pre) \<noteq> []
        \<and> clients (exec \<lparr>content = [], filePath = [], watched = [], watcher = None,
      clients = [], chanbuf = (\<lambda>ch. 0), delivered = (\<lambda>ch. 0), phase = WaitConnect,
      cancelled = False\<rparr> (pre @ Sample # mid)) = []"
    using drain_fires_on_first_zero_sample [of
      "\<lparr>content = [], filePath = [], watched = [], watcher = None,
      clients = [], chanbuf = (\<lambda>ch. 0), delivered = (\<lambda>ch. 0), phase = WaitConnect,
      cancelled = False\<rparr>" "[Subscribe 1, Sample, Unsubscribe 1, Sample]",
      THEN conjunct2, THEN conjunct1]
    by simp
  show "phase (step \<lparr>content = [], filePath = [], watched = [], watcher = None,
      clients = [2], chanbuf = (\<lambda>ch. 0), delivered = (\<lambda>ch. 0), phase = WaitDisconnect,
      cancelled = False\<rparr>
      Sample) = WaitDisconnect"
    using drain_fires_on_first_zero_sample [of
      "\<lparr>content = [], filePath = [], watched = [], watcher = None,
      clients = [2], chanbuf = (\<lambda>ch. 0), delivered = (\<lambda>ch. 0), phase = WaitDisconnect,
      cancelled = False\<rparr>"
      "[]", THEN conjunct2, THEN conjunct2, THEN conjunct1]
    by simp
  show "phase (step \<lparr>content = [], filePath = [], watched = [], watcher = None,
      clients = [1], chanbuf = (\<lambda>ch. 0), delivered = (\<lambda>ch. 0), phase = WaitConnect,
      cancelled = False\<rparr>
      Sample) = WaitDisconnect"
    using drain_fires_on_first_zero_sample [of
      "\<lparr>content = [], filePath = [], watched = [], watcher = None,
      clients = [1], chanbuf = (\<lambda>ch. 0), delivered = (\<lambda>ch. 0), phase = WaitConnect,
      cancelled = False\<rparr>"
      "[]", THEN conjunct2, THEN conjunct2, THEN conjunct2, THEN conjunct1]
    by simp
  show "phase (exec \<lparr>content = [], filePath = [], watched = [], watcher = None,
      clients = [], chanbuf = (\<lambda>ch. 0), delivered = (\<lambda>ch. 0), phase = WaitConnect,
      cancelled = False\<rparr>
      ([Subscribe 1] @ Sample # [Unsubscribe 1] @ Sample # [Subscribe 2, Sample])) = Fired"
    using drain_fires_on_first_zero_sample [where s = "\<lparr>content = [], filePath = [], watched = [], watcher = None,
      clients = [], chanbuf = (\<lambda>ch. 0), delivered = (\<lambda>ch. 0), phase = WaitConnect,
      cancelled = False\<rparr>"
      and pre = "[Subscribe 1]" and mid = "[Unsubscribe 1]" and post = "[Subscribe 2, Sample]"
      and evs = "[]",
      THEN conjunct2, THEN conjunct2, THEN conjunct2, THEN conjunct2, THEN conjunct2,
      THEN conjunct2, THEN conjunct1]
    by (simp add: exec_def)
qed

text \<open>
  C2 as stated fails. One viewer connects and is seen, it disconnects, and a single
  sampling check finds the registry empty: the shutdown trigger has fired, although no
  two checks in a row found it empty; a viewer that subscribes after that check, before
  the next one, does not bring the monitor back.
\<close>

theorem drain_single_sample_counterexample:
  "phase (exec \<lparr>content = [], filePath = [], watched = [], watcher = None, clients = [],
      chanbuf = (\<lambda>ch. 0), delivered = (\<lambda>ch. 0), phase = WaitConnect, cancelled = False\<rparr>
     [Subscribe 1, Sample, Unsubscribe 1, Sample]) = Fired
   \<and> \<not> spec_drain_confirmed [] False [Subscribe 1, Sample, Unsubscribe 1, Sample]
   \<and> phase (exec \<lparr>content = [], filePath = [], watched = [], watcher = None, clients = [],
      chanbuf = (\<lambda>ch. 0), delivered = (\<lambda>ch. 0), phase = WaitConnect, cancelled = False\<rparr>
     [Subscribe 1, Sample, Unsubscribe 1, Sample, Subscribe 2, Sample]) = Fired
   \<and> \<not> spec_drain_confirmed [] False
        [Subscribe 1, Sample, Unsubscribe 1, Sample, Subscribe 2, Sample]"
  by (simp add: exec_def)

section \<open>Properties of the change detector\<close>

lemma mt_put_map_fst:
  "map fst (mt_put k v mt) = (if k \<in> set (map fst mt) then map fst mt else map fst mt @ [k])"
  by (induction mt) force+

lemma mt_put_keys: "fst ` set (mt_put k v mt) = insert k (fst ` set mt)"
proof -
  have "set (map fst (mt_put k v mt)) = insert k (set (map fst mt))"
    by (auto simp: mt_put_map_fst)
  then show ?thesis by simp
qed

lemma mt_put_mem: "(k, v) \<in> set (mt_put k v mt)"
  by (induction mt) auto

lemma mt_put_keep: "(a, t) \<in> set mt \<Longrightarrow> a \<noteq> k \<Longrightarrow> (a, t) \<in> set (mt_put k v mt)"
  by (induction mt) auto

lemma mt_put_subset: "set (mt_put k v mt) \<subseteq> insert (k, v) (set mt)"
  by (induction mt) (auto split: if_splits)

lemma mt_put_distinct: "distinct (map fst mt) \<Longrightarrow> distinct (map fst (mt_put k v mt))"
  by (induction mt) (auto simp: mt_put_keys)

lemma mt_put_append:
  "k \<notin> fst ` set pre \<Longrightarrow> mt_put k v (pre @ (k, w) # es) = pre @ (k, v) # es"
  by (induction pre) auto

lemma poll_loop_flag:
  "snd (poll_loop st es (mt, c)) = (c \<or> list_ex (advanced st) es)"
  by (induction es arbitrary: mt c) (auto simp: advanced_def split: option.splits if_splits)

lemma poll_loop_closed:
  "distinct (map fst (pre @ es))
   \<Longrightarrow> fst (poll_loop st es (pre @ es, c)) = pre @ map (advance st) es"
proof (induction es arbitrary: pre c)
  case Nil
  show ?case by simp
next
  case (Cons e es)
  obtain p last where e: "e = (p, last)" by (cases e)
  from Cons.prems have d: "distinct (map fst ((pre @ [(p, x)]) @ es))" for x
    by (simp add: e)
  have notin: "p \<notin> fst ` set pre" using Cons.prems by (auto simp: e)
  show ?case
  proof (cases "st p")
    case None
    then show ?thesis
      using Cons.IH [OF d, of last c] by (simp add: e advance_def)
  next
    case (Some t)
    show ?thesis
    proof (cases "last < t")
      case True
      then show ?thesis
        using Cons.IH [OF d, of t True] Some notin
        by (simp add: e advance_def mt_put_append)
    next
      case False
      then show ?thesis
        using Cons.IH [OF d, of last c] Some by (simp add: e advance_def)
    qed
  qed
qed

lemma poll_closed:
  "distinct (map fst mt) \<Longrightarrow> poll st mt = (map (advance st) mt, list_ex (advanced st) mt)"
  using poll_loop_closed [of "[]" mt st False] poll_loop_flag [of st mt mt False]
  by (simp add: poll_def prod_eq_iff)





lemma watch_init_keys:
  "fst ` set (watch_init absf st ps mt)
     = fst ` set mt \<union> {a. \<exists>p \<in> set ps. absf p = Some a \<and> st a \<noteq> None}"
proof (induction ps arbitrary: mt)
  case Nil
  show ?case by simp
next
  case (Cons p ps)
  show ?case
    by (cases "absf p"; cases "st (the (absf p))") (auto simp: Cons.IH mt_put_keys)
qed

lemma watch_init_distinct:
  "distinct (map fst mt) \<Longrightarrow> distinct (map fst (watch_init absf st ps mt))"
  by (induction ps arbitrary: mt) (auto simp: mt_put_distinct split: option.splits)

lemma watch_init_recorded:
  "\<forall>e \<in> set mt. st (fst e) = Some (snd e)
   \<Longrightarrow> \<forall>e \<in> set (watch_init absf st ps mt). st (fst e) = Some (snd e)"
proof (induction ps arbitrary: mt)
  case Nil
  then show ?case by simp
next
  case (Cons p ps)
  show ?case
  proof (cases "absf p")
    case None
    then show ?thesis using Cons by simp
  next
    case (Some a)
    show ?thesis
    proof (cases "st a")
      case None
      then show ?thesis using Cons Some by simp
    next
      case (Some t)
      have "\<forall>e \<in> set (mt_put a t mt). st (fst e) = Some (snd e)"
        using mt_put_subset [of a t mt] Cons.prems Some by auto
      from Cons.IH [OF this] show ?thesis using Some \<open>absf p = Some a\<close> by simp
    qed
  qed
qed

lemma watch_init_baseline:
  "p \<in> set ps \<Longrightarrow> absf p = Some a \<Longrightarrow> st a = Some t
   \<Longrightarrow> (a, t) \<in> set (watch_init absf st ps [])"
proof -
  assume "p \<in> set ps" "absf p = Some a" "st a = Some t"
  then have "a \<in> fst ` set (watch_init absf st ps [])"
    by (auto simp: watch_init_keys)
  then obtain t' where m: "(a, t') \<in> set (watch_init absf st ps [])" by auto
  have "\<forall>e \<in> set (watch_init absf st ps []). st (fst e) = Some (snd e)"
    by (rule watch_init_recorded) simp
  with m have "st a = Some t'" by fastforce
  with \<open>st a = Some t\<close> m show ?thesis by simp
qed

lemma poll_flag: "snd (poll st mt) = list_ex (advanced st) mt"
  by (simp add: poll_def poll_loop_flag)

lemma step_tick_unchanged:
  "watcher s = Some mt \<Longrightarrow> \<not> list_ex (advanced st) mt
   \<Longrightarrow> step s (PollTick st rd) = s\<lparr>watcher := Some (fst (poll st mt))\<rparr>"
  using poll_flag [of st mt] by (cases "poll st mt") simp

lemma step_tick_changed:
  "watcher s = Some mt \<Longrightarrow> list_ex (advanced st) mt
   \<Longrightarrow> step s (PollTick st rd) =
       s\<lparr>watcher := Some (fst (poll st mt)), content := reread rd (watched s),
         chanbuf := notifyClients (clients s) (chanbuf s)\<rparr>"
  using poll_flag [of st mt] by (cases "poll st mt") simp

lemma baseline_not_advanced:
  assumes "\<forall>a t. st a = Some t \<longrightarrow> (\<forall>t'. st' a = Some t' \<longrightarrow> t' \<le> t)"
  shows "\<not> list_ex (advanced st') (watch_init absf st paths [])"
proof -
  have rec: "\<forall>e \<in> set (watch_init absf st paths []). st (fst e) = Some (snd e)"
    by (rule watch_init_recorded) simp
  show ?thesis
  proof
    assume "list_ex (advanced st') (watch_init absf st paths [])"
    then obtain e where e: "e \<in> set (watch_init absf st paths [])" "advanced st' e"
      by (auto simp: list_ex_iff)
    from e(2) obtain t' where t': "st' (fst e) = Some t'" "snd e < t'"
      by (auto simp: advanced_def split: option.splits)
    from rec e(1) have "st (fst e) = Some (snd e)" by blast
    with assms t'(1) have "t' \<le> snd e" by blast
    with t'(2) show False by simp
  qed
qed

lemma notify_at_least_one: "ch \<in> set cl \<Longrightarrow> Suc 0 \<le> notifyClients cl buf ch"
  by (simp add: notifyClients_def notify_loop_apply)

lemma advance_fixed: "\<not> advanced st e \<Longrightarrow> advance st e = e"
  by (auto simp: advance_def advanced_def split: option.splits)

lemma poll_unchanged:
  "distinct (map fst mt) \<Longrightarrow> \<not> list_ex (advanced st) mt \<Longrightarrow> fst (poll st mt) = mt"
proof -
  assume d: "distinct (map fst mt)" and n: "\<not> list_ex (advanced st) mt"
  from n have "map (advance st) mt = mt"
    by (induction mt) (simp_all add: advance_fixed)
  with d show ?thesis by (simp add: poll_closed)
qed

text \<open>
  C5. A tick sets \<open>changed\<close> exactly when \<open>os.Stat\<close> of some recorded path succeeds with
  a time strictly after the one recorded for it, and it then records the new time for
  that path. The baseline loop records for every path, once, the time \<open>os.Stat\<close> gives
  at startup. So a first tick at which no path has a time after its startup time
  leaves the session as it is: nothing is installed and no one is notified. A tick at
  which some recorded path has advanced installs the re-read snapshot, records the new
  times and calls \<open>notifyClients\<close>, after which every registered channel holds a
  signal; a tick at which none has advanced does neither. In particular a path whose
  time at the first tick is strictly after its baseline is notified to every viewer
  and its new time is recorded.
\<close>

theorem change_only_on_strict_advance:
  "(snd (poll st' mt) \<longleftrightarrow> (\<exists>e \<in> set mt. \<exists>t. st' (fst e) = Some t \<and> snd e < t))
   \<and> (distinct (map fst mt) \<longrightarrow> fst (poll st' mt) = map (advance st') mt)
   \<and> distinct (map fst (watch_init absf st paths []))
   \<and> (p \<in> set paths \<and> absf p = Some a \<and> st a = Some t0
        \<longrightarrow> (a, t0) \<in> set (watch_init absf st paths []))
   \<and> ((\<forall>a t. st a = Some t \<longrightarrow> (\<forall>t'. st' a = Some t' \<longrightarrow> t' \<le> t))
        \<longrightarrow> \<not> snd (poll st' (watch_init absf st paths [])))
   \<and> ((\<forall>a t. st a = Some t \<longrightarrow> (\<forall>t'. st' a = Some t' \<longrightarrow> t' \<le> t))
        \<and> watcher s = Some (watch_init absf st (watched s) [])
        \<longrightarrow> chanbuf (step s (PollTick st' rd)) = chanbuf s
          \<and> content (step s (PollTick st' rd)) = content s)
   \<and> (p \<in> set paths \<and> absf p = Some a \<and> st a = Some t0 \<and> st' a = Some t1 \<and> t0 < t1
        \<longrightarrow> snd (poll st' (watch_init absf st paths [])))
   \<and> (watcher s = Some mt \<and> (\<exists>e \<in> set mt. \<exists>t. st' (fst e) = Some t \<and> snd e < t)
        \<longrightarrow> step s (PollTick st' rd)
              = s\<lparr>watcher := Some (fst (poll st' mt)), content := reread rd (watched s),
                  chanbuf := notifyClients (clients s) (chanbuf s)\<rparr>
          \<and> (\<forall>ch \<in> set (clients s). 1 \<le> chanbuf (step s (PollTick st' rd)) ch))
   \<and> (watcher s = Some mt \<and> \<not> (\<exists>e \<in> set mt. \<exists>t. st' (fst e) = Some t \<and> snd e < t)
        \<longrightarrow> step s (PollTick st' rd) = s\<lparr>watcher := Some (fst (poll st' mt))\<rparr>)
   \<and> ((\<forall>a t. st a = Some t \<longrightarrow> (\<forall>t'. st' a = Some t' \<longrightarrow> t' \<le> t))
        \<and> watcher s = Some (watch_init absf st (watched s) [])
        \<longrightarrow> step s (PollTick st' rd) = s)
   \<and> (watcher s = Some (watch_init absf st (watched s) [])
        \<and> p \<in> set (watched s) \<and> absf p = Some a \<and> st a = Some t0 \<and> st' a = Some t1 \<and> t0 < t1
        \<longrightarrow> content (step s (PollTick st' rd)) = reread rd (watched s)
          \<and> (\<forall>ch \<in> set (clients s). 1 \<le> chanbuf (step s (PollTick st' rd)) ch)
          \<and> (\<exists>mt'. watcher (step s (PollTick st' rd)) = Some mt' \<and> (a, t1) \<in> set mt'))"
proof -
  have adv: "list_ex (advanced st') mt \<longleftrightarrow> (\<exists>e \<in> set mt. \<exists>t. st' (fst e) = Some t \<and> snd e < t)"
    for mt
    by (auto simp: list_ex_iff advanced_def split: option.splits)
  have c1: "snd (poll st' mt) \<longleftrightarrow> (\<exists>e \<in> set mt. \<exists>t. st' (fst e) = Some t \<and> snd e < t)"
    by (simp only: poll_flag adv)
  have c2: "distinct (map fst mt) \<longrightarrow> fst (poll st' mt) = map (advance st') mt"
    by (simp add: poll_closed)
  have dist: "distinct (map fst (watch_init absf st ps []))" for ps
    by (rule watch_init_distinct) simp
  have c4: "p \<in> set paths \<and> absf p = Some a \<and> st a = Some t0
        \<longrightarrow> (a, t0) \<in> set (watch_init absf st paths [])"
    by (blast intro: watch_init_baseline)
  have c5: "(\<forall>a t. st a = Some t \<longrightarrow> (\<forall>t'. st' a = Some t' \<longrightarrow> t' \<le> t))
        \<longrightarrow> \<not> snd (poll st' (watch_init absf st paths []))"
  proof
    assume "\<forall>a t. st a = Some t \<longrightarrow> (\<forall>t'. st' a = Some t' \<longrightarrow> t' \<le> t)"
    then have "\<not> list_ex (advanced st') (watch_init absf st paths [])"
      by (rule baseline_not_advanced)
    then show "\<not> snd (poll st' (watch_init absf st paths []))"
      by (simp add: poll_flag)
  qed
  have quiet_step: "step s (PollTick st' rd) = s"
    if older: "\<forall>a t. st a = Some t \<longrightarrow> (\<forall>t'. st' a = Some t' \<longrightarrow> t' \<le> t)"
      and w: "watcher s = Some (watch_init absf st (watched s) [])"
  proof -
    from older have n: "\<not> list_ex (advanced st') (watch_init absf st (watched s) [])"
      by (rule baseline_not_advanced)
    with w have "step s (PollTick st' rd)
        = s\<lparr>watcher := Some (fst (poll st' (watch_init absf st (watched s) [])))\<rparr>"
      by (rule step_tick_unchanged)
    also have "fst (poll st' (watch_init absf st (watched s) [])) = watch_init absf st (watched s) []"
      using dist n by (rule poll_unchanged)
    finally show ?thesis using w by simp
  qed
  have c6: "(\<forall>a t. st a = Some t \<longrightarrow> (\<forall>t'. st' a = Some t' \<longrightarrow> t' \<le> t))
        \<and> watcher s = Some (watch_init absf st (watched s) [])
        \<longrightarrow> chanbuf (step s (PollTick st' rd)) = chanbuf s
          \<and> content (step s (PollTick st' rd)) = content s"
    using quiet_step by simp
  have c7: "p \<in> set paths \<and> absf p = Some a \<and> st a = Some t0 \<and> st' a = Some t1 \<and> t0 < t1
        \<longrightarrow> snd (poll st' (watch_init absf st paths []))"
  proof
    assume h: "p \<in> set paths \<and> absf p = Some a \<and> st a = Some t0 \<and> st' a = Some t1 \<and> t0 < t1"
    then have "(a, t0) \<in> set (watch_init absf st paths [])"
      by (blast intro: watch_init_baseline)
    moreover from h have "advanced st' (a, t0)" by (simp add: advanced_def)
    ultimately show "snd (poll st' (watch_init absf st paths []))"
      by (auto simp: poll_flag list_ex_iff)
  qed
  have changed_step: "step s (PollTick st' rd)
              = s\<lparr>watcher := Some (fst (poll st' mt)), content := reread rd (watched s),
                  chanbuf := notifyClients (clients s) (chanbuf s)\<rparr>"
    if "watcher s = Some mt" and "list_ex (advanced st') mt" for mt
    using that by (rule step_tick_changed)
  have c8: "watcher s = Some mt \<and> (\<exists>e \<in> set mt. \<exists>t. st' (fst e) = Some t \<and> snd e < t)
        \<longrightarrow> step s (PollTick st' rd)
              = s\<lparr>watcher := Some (fst (poll st' mt)), content := reread rd (watched s),
                  chanbuf := notifyClients (clients s) (chanbuf s)\<rparr>
          \<and> (\<forall>ch \<in> set (clients s). 1 \<le> chanbuf (step s (PollTick st' rd)) ch)"
  proof
    assume h: "watcher s = Some mt \<and> (\<exists>e \<in> set mt. \<exists>t. st' (fst e) = Some t \<and> snd e < t)"
    then have "list_ex (advanced st') mt" using adv [of mt] by blast
    with h have eq: "step s (PollTick st' rd)
              = s\<lparr>watcher := Some (fst (poll st' mt)), content := reread rd (watched s),
                  chanbuf := notifyClients (clients s) (chanbuf s)\<rparr>"
      by (blast intro: changed_step)
    then have "chanbuf (step s (PollTick st' rd)) = notifyClients (clients s) (chanbuf s)"
      by (simp del: step.simps)
    then have "\<forall>ch \<in> set (clients s). 1 \<le> chanbuf (step s (PollTick st' rd)) ch"
      by (simp add: notify_at_least_one del: step.simps)
    with eq show "step s (PollTick st' rd)
              = s\<lparr>watcher := Some (fst (poll st' mt)), content := reread rd (watched s),
                  chanbuf := notifyClients (clients s) (chanbuf s)\<rparr>
          \<and> (\<forall>ch \<in> set (clients s). 1 \<le> chanbuf (step s (PollTick st' rd)) ch)"
      by (rule conjI)
  qed
  have c9: "watcher s = Some mt \<and> \<not> (\<exists>e \<in> set mt. \<exists>t. st' (fst e) = Some t \<and> snd e < t)
        \<longrightarrow> step s (PollTick st' rd) = s\<lparr>watcher := Some (fst (poll st' mt))\<rparr>"
  proof
    assume h: "watcher s = Some mt \<and> \<not> (\<exists>e \<in> set mt. \<exists>t. st' (fst e) = Some t \<and> snd e < t)"
    then have "\<not> list_ex (advanced st') mt" using adv [of mt] by blast
    with h show "step s (PollTick st' rd) = s\<lparr>watcher := Some (fst (poll st' mt))\<rparr>"
      by (blast intro: step_tick_unchanged)
  qed
  have c10: "(\<forall>a t. st a = Some t \<longrightarrow> (\<forall>t'. st' a = Some t' \<longrightarrow> t' \<le> t))
        \<and> watcher s = Some (watch_init absf st (watched s) [])
        \<longrightarrow> step s (PollTick st' rd) = s"
    using quiet_step by blast
  have c11: "watcher s = Some (watch_init absf st (watched s) [])
        \<and> p \<in> set (watched s) \<and> absf p = Some a \<and> st a = Some t0 \<and> st' a = Some t1 \<and> t0 < t1
        \<longrightarrow> content (step s (PollTick st' rd)) = reread rd (watched s)
          \<and> (\<forall>ch \<in> set (clients s). 1 \<le> chanbuf (step s (PollTick st' rd)) ch)
          \<and> (\<exists>mt'. watcher (step s (PollTick st' rd)) = Some mt' \<and> (a, t1) \<in> set mt')"
  proof
    let ?mt = "watch_init absf st (watched s) []"
    assume h: "watcher s = Some ?mt
        \<and> p \<in> set (watched s) \<and> absf p = Some a \<and> st a = Some t0 \<and> st' a = Some t1 \<and> t0 < t1"
    then have mem: "(a, t0) \<in> set ?mt"
      by (blast intro: watch_init_baseline)
    from h have a: "advanced st' (a, t0)" and a': "advance st' (a, t0) = (a, t1)"
      by (simp_all add: advanced_def advance_def)
    from mem a have "list_ex (advanced st') ?mt" by (auto simp: list_ex_iff)
    with h have eq: "step s (PollTick st' rd)
              = s\<lparr>watcher := Some (fst (poll st' ?mt)), content := reread rd (watched s),
                  chanbuf := notifyClients (clients s) (chanbuf s)\<rparr>"
      by (blast intro: changed_step)
    have "fst (poll st' ?mt) = map (advance st') ?mt"
      using dist by (simp add: poll_closed)
    moreover from mem a' have "(a, t1) \<in> set (map (advance st') ?mt)"
      by (metis image_eqI set_map)
    ultimately have "(a, t1) \<in> set (fst (poll st' ?mt))" by simp
    moreover from eq have "content (step s (PollTick st' rd)) = reread rd (watched s)"
      and "chanbuf (step s (PollTick st' rd)) = notifyClients (clients s) (chanbuf s)"
      and "watcher (step s (PollTick st' rd)) = Some (fst (poll st' ?mt))"
      by (simp_all del: step.simps)
    ultimately show "content (step s (PollTick st' rd)) = reread rd (watched s)
          \<and> (\<forall>ch \<in> set (clients s). 1 \<le> chanbuf (step s (PollTick st' rd)) ch)
          \<and> (\<exists>mt'. watcher (step s (PollTick st' rd)) = Some mt' \<and> (a, t1) \<in> set mt')"
      by (simp add: notify_at_least_one del: step.simps)
  qed
  show ?thesis
    apply (rule conjI, rule c1)
    apply (rule conjI, rule c2)
    apply (rule conjI, rule dist)
    apply (rule conjI, rule c4)
    apply (rule conjI, rule c5)
    apply (rule conjI, rule c6)
    apply (rule conjI, rule c7)
    apply (rule conjI, rule c8)
    apply (rule conjI, rule c9)
    apply (rule conjI, rule c10)
    apply (rule c11)
    done
qed

theorem change_only_on_strict_advance_witness:
  "\<not> snd (poll ((\<lambda>x. None)(''/w/a.md'' := Some 5))
        (watch_init Some ((\<lambda>x. None)(''/w/a.md'' := Some 5)) [''/w/a.md''] []))
   \<and> snd (poll ((\<lambda>x. None)(''/w/a.md'' := Some 6))
        (watch_init Some ((\<lambda>x. None)(''/w/a.md'' := Some 5)) [''/w/a.md''] []))
   \<and> fst (poll ((\<lambda>x. None)(''/w/a.md'' := Some 6)) [(''/w/a.md'', 5)]) = [(''/w/a.md'', 6)]
   \<and> (''/w/a.md'', 5) \<in> set (watch_init Some ((\<lambda>x. None)(''/w/a.md'' := Some 5)) [''/w/a.md''] [])
   \<and> step \<lparr>content = ''old'', filePath = ''/w/a.md'', watched = [''/w/a.md''],
         watcher = Some [(''/w/a.md'', 5)], clients = [1], chanbuf = (\<lambda>ch. 0),
         delivered = (\<lambda>ch. 0), phase = WaitDisconnect, cancelled = False\<rparr>
       (PollTick ((\<lambda>x. None)(''/w/a.md'' := Some 5)) (\<lambda>x. Some ''new''))
     = \<lparr>content = ''old'', filePath = ''/w/a.md'', watched = [''/w/a.md''],
         watcher = Some [(''/w/a.md'', 5)], clients = [1], chanbuf = (\<lambda>ch. 0),
         delivered = (\<lambda>ch. 0), phase = WaitDisconnect, cancelled = False\<rparr>
   \<and> content (step \<lparr>content = ''old'', filePath = ''/w/a.md'', watched = [''/w/a.md''],
         watcher = Some [(''/w/a.md'', 5)], clients = [1], chanbuf = (\<lambda>ch. 0),
         delivered = (\<lambda>ch. 0), phase = WaitDisconnect, cancelled = False\<rparr>
       (PollTick ((\<lambda>x. None)(''/w/a.md'' := Some 6)) (\<lambda>x. Some ''new''))) = ''new''
   \<and> 1 \<le> chanbuf (step \<lparr>content = ''old'', filePath = ''/w/a.md'', watched = [''/w/a.md''],
         watcher = Some [(''/w/a.md'', 5)], clients = [1], chanbuf = (\<lambda>ch. 0),
         delivered = (\<lambda>ch. 0), phase = WaitDisconnect, cancelled = False\<rparr>
       (PollTick ((\<lambda>x. None)(''/w/a.md'' := Some 6)) (\<lambda>x. Some ''new''))) 1
   \<and> (\<exists>mt'. watcher (step \<lparr>content = ''old'', filePath = ''/w/a.md'', watched = [''/w/a.md''],
         watcher = Some [(''/w/a.md'', 5)], clients = [1], chanbuf = (\<lambda>ch. 0),
         delivered = (\<lambda>ch. 0), phase = WaitDisconnect, cancelled = False\<rparr>
       (PollTick ((\<lambda>x. None)(''/w/a.md'' := Some 6)) (\<lambda>x. Some ''new''))) = Some mt' \<and> (''/w/a.md'', 6) \<in> set mt')"
proof -
  have w0: "\<not> snd (poll ((\<lambda>x. None)(''/w/a.md'' := Some 5))
        (watch_init Some ((\<lambda>x. None)(''/w/a.md'' := Some 5)) [''/w/a.md''] []))"
    using change_only_on_strict_advance [where st = "(\<lambda>x. None)(''/w/a.md'' := Some 5)"
      and st' = "(\<lambda>x. None)(''/w/a.md'' := Some 5)" and absf = Some
      and paths = "[''/w/a.md'']" and p = "''/w/a.md''" and a = "''/w/a.md''" and ?t0.0 = 5
      and ?t1.0 = 6 and mt = "[]" and rd = "\<lambda>x. None"
      and s = "\<lparr>content = [], filePath = [], watched = [], watcher = None, clients = [],
        chanbuf = (\<lambda>ch. 0), delivered = (\<lambda>ch. 0), phase = WaitConnect, cancelled = False\<rparr>"]
    by simp
  have w1: "snd (poll ((\<lambda>x. None)(''/w/a.md'' := Some 6))
        (watch_init Some ((\<lambda>x. None)(''/w/a.md'' := Some 5)) [''/w/a.md''] []))"
    using change_only_on_strict_advance [where st = "(\<lambda>x. None)(''/w/a.md'' := Some 5)"
      and st' = "(\<lambda>x. None)(''/w/a.md'' := Some 6)" and absf = Some
      and paths = "[''/w/a.md'']" and p = "''/w/a.md''" and a = "''/w/a.md''" and ?t0.0 = 5
      and ?t1.0 = 6 and mt = "[]" and rd = "\<lambda>x. None"
      and s = "\<lparr>content = [], filePath = [], watched = [], watcher = None, clients = [],
        chanbuf = (\<lambda>ch. 0), delivered = (\<lambda>ch. 0), phase = WaitConnect, cancelled = False\<rparr>"]
    by simp
  have w2: "fst (poll ((\<lambda>x. None)(''/w/a.md'' := Some 6)) [(''/w/a.md'', 5)]) = [(''/w/a.md'', 6)]"
    using change_only_on_strict_advance [where st = "(\<lambda>x. None)(''/w/a.md'' := Some 5)"
      and st' = "(\<lambda>x. None)(''/w/a.md'' := Some 6)" and absf = Some
      and paths = "[''/w/a.md'']" and p = "''/w/a.md''" and a = "''/w/a.md''" and ?t0.0 = 5
      and ?t1.0 = 6 and mt = "[(''/w/a.md'', 5)]" and rd = "\<lambda>x. None"
      and s = "\<lparr>content = [], filePath = [], watched = [], watcher = None, clients = [],
        chanbuf = (\<lambda>ch. 0), delivered = (\<lambda>ch. 0), phase = WaitConnect, cancelled = False\<rparr>"]
    by (simp add: advance_def)
  have w3: "(''/w/a.md'', 5) \<in> set (watch_init Some ((\<lambda>x. None)(''/w/a.md'' := Some 5)) [''/w/a.md''] [])"
    using change_only_on_strict_advance [where st = "(\<lambda>x. None)(''/w/a.md'' := Some 5)"
      and st' = "(\<lambda>x. None)(''/w/a.md'' := Some 6)" and absf = Some
      and paths = "[''/w/a.md'']" and p = "''/w/a.md''" and a = "''/w/a.md''" and ?t0.0 = 5
      and ?t1.0 = 6 and mt = "[]" and rd = "\<lambda>x. None"
      and s = "\<lparr>content = [], filePath = [], watched = [], watcher = None, clients = [],
        chanbuf = (\<lambda>ch. 0), delivered = (\<lambda>ch. 0), phase = WaitConnect, cancelled = False\<rparr>"]
    by simp
  have w4: "step \<lparr>content = ''old'', filePath = ''/w/a.md'', watched = [''/w/a.md''],
         watcher = Some [(''/w/a.md'', 5)], clients = [1], chanbuf = (\<lambda>ch. 0),
         delivered = (\<lambda>ch. 0), phase = WaitDisconnect, cancelled = False\<rparr>
       (PollTick ((\<lambda>x. None)(''/w/a.md'' := Some 5)) (\<lambda>x. Some ''new''))
     = \<lparr>content = ''old'', filePath = ''/w/a.md'', watched = [''/w/a.md''],
         watcher = Some [(''/w/a.md'', 5)], clients = [1], chanbuf = (\<lambda>ch. 0),
         delivered = (\<lambda>ch. 0), phase = WaitDisconnect, cancelled = False\<rparr>"
    using change_only_on_strict_advance [where st = "(\<lambda>x. None)(''/w/a.md'' := Some 5)"
      and st' = "(\<lambda>x. None)(''/w/a.md'' := Some 5)" and absf = Some
      and paths = "[''/w/a.md'']" and p = "''/w/a.md''" and a = "''/w/a.md''" and ?t0.0 = 5
      and ?t1.0 = 6 and mt = "[]" and rd = "\<lambda>x. Some ''new''"
      and s = "\<lparr>content = ''old'', filePath = ''/w/a.md'', watched = [''/w/a.md''],
         watcher = Some [(''/w/a.md'', 5)], clients = [1], chanbuf = (\<lambda>ch. 0),
         delivered = (\<lambda>ch. 0), phase = WaitDisconnect, cancelled = False\<rparr>"]
    by (simp del: step.simps)
  have w5: "content (step \<lparr>content = ''old'', filePath = ''/w/a.md'', watched = [''/w/a.md''],
         watcher = Some [(''/w/a.md'', 5)], clients = [1], chanbuf = (\<lambda>ch. 0),
         delivered = (\<lambda>ch. 0), phase = WaitDisconnect, cancelled = False\<rparr>
       (PollTick ((\<lambda>x. None)(''/w/a.md'' := Some 6)) (\<lambda>x. Some ''new''))) = ''new''
   \<and> 1 \<le> chanbuf (step \<lparr>content = ''old'', filePath = ''/w/a.md'', watched = [''/w/a.md''],
         watcher = Some [(''/w/a.md'', 5)], clients = [1], chanbuf = (\<lambda>ch. 0),
         delivered = (\<lambda>ch. 0), phase = WaitDisconnect, cancelled = False\<rparr>
       (PollTick ((\<lambda>x. None)(''/w/a.md'' := Some 6)) (\<lambda>x. Some ''new''))) 1
   \<and> (\<exists>mt'. watcher (step \<lparr>content = ''old'', filePath = ''/w/a.md'', watched = [''/w/a.md''],
         watcher = Some [(''/w/a.md'', 5)], clients = [1], chanbuf = (\<lambda>ch. 0),
         delivered = (\<lambda>ch. 0), phase = WaitDisconnect, cancelled = False\<rparr>
       (PollTick ((\<lambda>x. None)(''/w/a.md'' := Some 6)) (\<lambda>x. Some ''new''))) = Some mt' \<and> (''/w/a.md'', 6) \<in> set mt')"
    using change_only_on_strict_advance [where st = "(\<lambda>x. None)(''/w/a.md'' := Some 5)"
      and st' = "(\<lambda>x. None)(''/w/a.md'' := Some 6)" and absf = Some
      and paths = "[''/w/a.md'']" and p = "''/w/a.md''" and a = "''/w/a.md''" and ?t0.0 = 5
      and ?t1.0 = 6 and mt = "[(''/w/a.md'', 5)]" and rd = "\<lambda>x. Some ''new''"
      and s = "\<lparr>content = ''old'', filePath = ''/w/a.md'', watched = [''/w/a.md''],
         watcher = Some [(''/w/a.md'', 5)], clients = [1], chanbuf = (\<lambda>ch. 0),
         delivered = (\<lambda>ch. 0), phase = WaitDisconnect, cancelled = False\<rparr>",
      THEN conjunct2, THEN conjunct2, THEN conjunct2, THEN conjunct2, THEN conjunct2, THEN conjunct2, THEN conjunct2, THEN conjunct2, THEN conjunct2, THEN conjunct2]
    by (simp add: reread_def append_source_def del: step.simps)
  from w0 w1 w2 w3 w4 w5 show ?thesis by (simp del: step.simps)
qed

section \<open>Re-reading with failures\<close>



section \<open>Paths without a baseline\<close>












section \<open>Properties of startup\<close>

text \<open>
  C8, as the code has it. When no argument is \<open>-h\<close> or \<open>--help\<close> and some named file
  cannot be read, \<open>run\<close> returns the error \<open>reading <file>\<close> for the first such file
  before anything else happens, and \<open>main\<close> prints it and exits with status 1: no
  listener, no server, no browser, no goroutine. When an argument is \<open>-h\<close> or
  \<open>--help\<close>, whatever the other arguments are, no file is read: the usage text is
  printed and the process exits with status 0.
\<close>

theorem unreadable_file_is_fatal:
  "(\<not> list_ex is_help (args e) \<and> a \<in> set (args e) \<and> read_file e a = None
      \<longrightarrow> (\<exists>b \<in> set (args e). read_file e b = None
           \<and> find (\<lambda>a. read_file e a = None) (args e) = Some b
           \<and> run e = ([], Failed (Reading b))
           \<and> main e = [PrintError (Reading b), ExitProc 1]))
   \<and> (list_ex is_help (args e)
      \<longrightarrow> run e = ([PrintUsage, ExitProc 0], Exited 0) \<and> main e = [PrintUsage, ExitProc 0])"
proof (rule conjI)
  show "\<not> list_ex is_help (args e) \<and> a \<in> set (args e) \<and> read_file e a = None
      \<longrightarrow> (\<exists>b \<in> set (args e). read_file e b = None
           \<and> find (\<lambda>a. read_file e a = None) (args e) = Some b
           \<and> run e = ([], Failed (Reading b))
           \<and> main e = [PrintError (Reading b), ExitProc 1])"
  proof
    assume h: "\<not> list_ex is_help (args e) \<and> a \<in> set (args e) \<and> read_file e a = None"
    then have nh: "\<not> list_ex is_help (args e)" and ain: "a \<in> set (args e)"
      and un: "read_file e a = None"
      by simp_all
    from find_unreadable [of a "args e" "read_file e", OF ain un] obtain b
      where b: "b \<in> set (args e)" "read_file e b = None"
        "find (\<lambda>a. read_file e a = None) (args e) = Some b"
      by blast
    from ain have ne: "length (args e) \<noteq> 0" by auto
    from b(3) have "read_args (read_file e) [] (args e) = Inl (Reading b)"
      by (simp add: read_args_find)
    with nh ne have r: "run e = ([], Failed (Reading b))"
      by (simp add: run_def)
    then have "main e = [PrintError (Reading b), ExitProc 1]"
      by (simp add: main_def)
    with b r show "\<exists>b \<in> set (args e). read_file e b = None
           \<and> find (\<lambda>a. read_file e a = None) (args e) = Some b
           \<and> run e = ([], Failed (Reading b))
           \<and> main e = [PrintError (Reading b), ExitProc 1]"
      by blast
  qed
  show "list_ex is_help (args e)
      \<longrightarrow> run e = ([PrintUsage, ExitProc 0], Exited 0) \<and> main e = [PrintUsage, ExitProc 0]"
    by (simp add: run_def main_def)
qed

theorem unreadable_file_is_fatal_witness:
  "main \<lparr>args = [''missing.md''], stdin_char_device = True, stdin_data = None,
      read_file = (\<lambda>p. None), listen_port = Some 8080, abs_path = Some,
      stat_mtime = (\<lambda>p. None)\<rparr> = [PrintError (Reading ''missing.md''), ExitProc 1]
   \<and> main \<lparr>args = [''a.md'', ''-h''], stdin_char_device = True, stdin_data = None,
      read_file = (\<lambda>p. None), listen_port = Some 8080, abs_path = Some,
      stat_mtime = (\<lambda>p. None)\<rparr> = [PrintUsage, ExitProc 0]"
proof (rule conjI)
  show "main \<lparr>args = [''missing.md''], stdin_char_device = True, stdin_data = None,
      read_file = (\<lambda>p. None), listen_port = Some 8080, abs_path = Some,
      stat_mtime = (\<lambda>p. None)\<rparr> = [PrintError (Reading ''missing.md''), ExitProc 1]"
    using unreadable_file_is_fatal [of "\<lparr>args = [''missing.md''], stdin_char_device = True,
      stdin_data = None, read_file = (\<lambda>p. None), listen_port = Some 8080, abs_path = Some,
      stat_mtime = (\<lambda>p. None)\<rparr>" "''missing.md''", THEN conjunct1]
    by (simp add: is_help_def)
  show "main \<lparr>args = [''a.md'', ''-h''], stdin_char_device = True, stdin_data = None,
      read_file = (\<lambda>p. None), listen_port = Some 8080, abs_path = Some,
      stat_mtime = (\<lambda>p. None)\<rparr> = [PrintUsage, ExitProc 0]"
    using unreadable_file_is_fatal [of "\<lparr>args = [''a.md'', ''-h''], stdin_char_device = True,
      stdin_data = None, read_file = (\<lambda>p. None), listen_port = Some 8080, abs_path = Some,
      stat_mtime = (\<lambda>p. None)\<rparr>" "''a.md''", THEN conjunct2]
    by (simp add: is_help_def)
qed

text \<open>
  C8 as stated fails when a help flag is among the arguments: the file named beside it
  is never opened, the usage text is printed and the process exits with status 0.
\<close>

theorem help_flag_counterexample:
  "main \<lparr>args = [''missing.md'', ''--help''], stdin_char_device = True, stdin_data = None,
      read_file = (\<lambda>p. None), listen_port = Some 8080, abs_path = Some,
      stat_mtime = (\<lambda>p. None)\<rparr> = [PrintUsage, ExitProc 0]"
  by (simp add: main_def run_def is_help_def)

section \<open>Sessions on the anonymous stream\<close>

lemma step_no_watcher:
  "watcher s = None \<Longrightarrow> \<forall>ch. chanbuf s ch = 0
   \<Longrightarrow> watcher (step s ev) = None \<and> (\<forall>ch. chanbuf (step s ev) ch = 0)
       \<and> content (step s ev) = content s \<and> delivered (step s ev) = delivered s"
  by (cases ev) auto

lemma exec_no_watcher:
  "watcher s = None \<Longrightarrow> \<forall>ch. chanbuf s ch = 0
   \<Longrightarrow> watcher (exec s evs) = None \<and> (\<forall>ch. chanbuf (exec s evs) ch = 0)
       \<and> content (exec s evs) = content s \<and> delivered (exec s evs) = delivered s"
proof (induction evs arbitrary: s)
  case Nil
  then show ?case by (simp add: exec_Nil)
next
  case (Cons ev evs)
  from step_no_watcher [OF Cons.prems, of ev]
  have st: "watcher (step s ev) = None" "\<forall>ch. chanbuf (step s ev) ch = 0"
    "content (step s ev) = content s" "delivered (step s ev) = delivered s"
    by blast+
  from Cons.IH [OF st(1,2)] st(3,4) show ?case by (simp add: exec_Cons)
qed

text \<open>
  C9. A session that reads the anonymous stream (no arguments, standard input not a
  terminal) does not start \<open>watchFiles\<close>; in every run of it the poller does not exist,
  the snapshot stays what was read from the stream, no channel ever holds a signal and
  no reload event is ever written to a viewer.
\<close>

theorem stdin_session_never_watches:
  assumes "args e = []" and "\<not> stdin_char_device e" and "run e = (effs, Running s)"
  shows "(\<forall>ps. GoWatchFiles ps \<notin> set effs)
     \<and> stdin_data e = Some (content s)
     \<and> (\<forall>evs. watcher (exec s evs) = None \<and> content (exec s evs) = content s
          \<and> (\<forall>ch. chanbuf (exec s evs) ch = 0 \<and> delivered (exec s evs) ch = 0))"
proof -
  from assms obtain data where d: "stdin_data e = Some data" "serve e data [] = (effs, Running s)"
    by (auto simp: run_def is_help_def split: option.splits)
  from d(2) obtain port where p: "listen_port e = Some port"
      "effs = [Listen, Serve, PrintServing port, OpenBrowser port, GoMonitor]"
      "s = \<lparr>content = data, filePath = [], watched = args e, watcher = None,
             clients = [], chanbuf = (\<lambda>ch. 0), delivered = (\<lambda>ch. 0),
             phase = WaitConnect, cancelled = False\<rparr>"
    by (auto simp: serve_def split: option.splits)
  from p(3) have w: "watcher s = None" and z: "\<forall>ch. chanbuf s ch = 0"
    and dl: "delivered s = (\<lambda>ch. 0)" and c: "content s = data"
    by simp_all
  have "watcher (exec s evs) = None \<and> content (exec s evs) = content s
          \<and> (\<forall>ch. chanbuf (exec s evs) ch = 0 \<and> delivered (exec s evs) ch = 0)" for evs
    using exec_no_watcher [OF w z, of evs] dl by simp
  moreover have "\<forall>ps. GoWatchFiles ps \<notin> set effs" by (simp add: p(2))
  ultimately show ?thesis using d(1) c by blast
qed

theorem stdin_session_never_watches_witness:
  "delivered (exec \<lparr>content = ''# doc'', filePath = [], watched = [], watcher = None,
       clients = [], chanbuf = (\<lambda>ch. 0), delivered = (\<lambda>ch. 0),
       phase = WaitConnect, cancelled = False\<rparr>
     [Subscribe 1, PollTick (\<lambda>p. Some 7) (\<lambda>p. Some ''new''), Receive 1]) 1 = 0
   \<and> content (exec \<lparr>content = ''# doc'', filePath = [], watched = [], watcher = None,
       clients = [], chanbuf = (\<lambda>ch. 0), delivered = (\<lambda>ch. 0),
       phase = WaitConnect, cancelled = False\<rparr>
     [Subscribe 1, PollTick (\<lambda>p. Some 7) (\<lambda>p. Some ''new''), Receive 1]) = ''# doc''"
  using stdin_session_never_watches [of "\<lparr>args = [], stdin_char_device = False,
      stdin_data = Some ''# doc'', read_file = (\<lambda>p. None), listen_port = Some 8080,
      abs_path = Some, stat_mtime = (\<lambda>p. None)\<rparr>"
      "[Listen, Serve, PrintServing 8080, OpenBrowser 8080, GoMonitor]"
      "\<lparr>content = ''# doc'', filePath = [], watched = [], watcher = None,
       clients = [], chanbuf = (\<lambda>ch. 0), delivered = (\<lambda>ch. 0),
       phase = WaitConnect, cancelled = False\<rparr>"]
  by (simp add: run_def serve_def is_help_def)

end
